theory Spec2Isabelle
  imports Main "HOL-Library.Word" "HOL-Library.Multiset"
begin

section \<open>Descriptors\<close>

text \<open>
  The differ reads protobuf descriptors (package \<open>descriptor\<close> of golang/protobuf). Each
  descriptor is a record holding the fields the differ reads. Go's \<open>int32\<close> is a 32-bit word,
  compared as a signed number (\<open>\<le>s\<close>). A pointer field that the differ only compares or
  tests for nil (\<open>Label\<close>, \<open>Type\<close>, \<open>TypeName\<close>, \<open>ClientStreaming\<close>, \<open>ServerStreaming\<close>)
  is an \<open>option\<close>, \<open>None\<close> for nil, and \<open>cmp.Equal\<close> on two such pointers is equality of the
  options. A pointer field that the differ dereferences (\<open>*file.Package\<close>, \<open>*msg.Name\<close>,
  \<open>*field.Number\<close>, \<open>*rrange.Start\<close>, \<open>*prev.InputType\<close>, ...) is a plain value: the
  descriptors are fully populated, and a nil there stops the Go program with a panic before
  any result exists.
\<close>

type_synonym int32 = "32 word"

record DescriptorProto_ReservedRange =
  Start :: int32
  End :: int32

record FieldDescriptorProto =
  field_Name :: string
  field_Number :: int32
  field_Label :: "int32 option"
  field_Type :: "int32 option"
  field_TypeName :: "string option"

record DescriptorProto =
  msg_Name :: string
  msg_Field :: "FieldDescriptorProto list"
  msg_ReservedRange :: "DescriptorProto_ReservedRange list"
  msg_ReservedName :: "string list"

record EnumValueDescriptorProto =
  value_Name :: string
  value_Number :: int32

record EnumDescriptorProto =
  enum_Name :: string
  enum_Value :: "EnumValueDescriptorProto list"

record MethodDescriptorProto =
  method_Name :: string
  InputType :: string
  OutputType :: string
  ClientStreaming :: "bool option"
  ServerStreaming :: "bool option"

record ServiceDescriptorProto =
  service_Name :: string
  service_Method :: "MethodDescriptorProto list"

record FileDescriptorProto =
  Package :: string
  MessageType :: "DescriptorProto list"
  EnumType :: "EnumDescriptorProto list"
  Service :: "ServiceDescriptorProto list"

section \<open>Changes and the report\<close>

text \<open>
  One constructor for each struct of \<open>problem.go\<close>, with the struct's fields in their
  declared order, and one for \<open>ProblemChangedFieldComplexType\<close>, which \<open>diffFields\<close>
  builds with the fields \<open>Message\<close>, \<open>Field\<close>, \<open>OldType\<close>, \<open>NewType\<close>.
\<close>

datatype Change =
    ProblemChangedFieldType string int32 string "int32 option" "int32 option"
  | ProblemChangedFieldName string int32 string string
  | ProblemChangedFieldLabel string string "int32 option" "int32 option"
  | ProblemChangedFieldComplexType string string string string
  | ProblemRemovedField string string
  | ProblemRemovedServiceMethod string string
  | ProblemChangedService string string string string string
  | ProblemRemovedEnumValue string string
  | ProblemChangeEnumValue string string int32 int32
  | ProblemChangeEnumName string int32 string string
  | ProblemRemovedEnum string
  | ProblemRemovedMessage string
  | ProblemRemovedPackage string
  | ProblemRemovedService string
  | ProblemChangedServiceStreaming string string string "bool option" "bool option"
  | ProblemUnreservedFieldName string string
  | ProblemUnreservedFieldNumber string int32 int32

record Report =
  Changes :: "Change list"

definition Add :: "Report \<Rightarrow> Change \<Rightarrow> Report" where
  "Add r ch = r\<lparr>Changes := Changes r @ [ch]\<rparr>"

subsection \<open>Rendering\<close>

text \<open>
  The verbs of \<open>fmt.Sprintf\<close>: \<open>%d\<close> writes a signed decimal, \<open>%t\<close> writes \<open>true\<close> or
  \<open>false\<close>, \<open>%s\<close> writes a string as it is and calls \<open>String()\<close> on a value that has one.
\<close>

fun digits :: "nat \<Rightarrow> string" where
  "digits n = (if n < 10 then [''0123456789'' ! n]
               else digits (n div 10) @ [''0123456789'' ! (n mod 10)])"

declare digits.simps [simp del]

definition sprint_d :: "int \<Rightarrow> string" where
  "sprint_d i = (if i < 0 then ''-'' @ digits (nat (- i)) else digits (nat i))"

definition sprint_t :: "bool \<Rightarrow> string" where
  "sprint_t b = (if b then ''true'' else ''false'')"

definition quoted :: "string \<Rightarrow> string" where
  "quoted s = [CHR 0x27] @ s @ [CHR 0x27]"

text \<open>
  The names of the type kinds and labels are the tables of the protobuf library
  (\<open>FieldDescriptorProto_Type_name\<close>, \<open>FieldDescriptorProto_Label_name\<close>); its \<open>String()\<close>
  writes the name of a known number and the decimal number otherwise. The Change holds a
  pointer: \<open>%s\<close> on a nil pointer writes \<open><nil>\<close>.
\<close>

definition FieldDescriptorProto_Type_name :: "(int32 \<times> string) list" where
  "FieldDescriptorProto_Type_name =
     [(1, ''TYPE_DOUBLE''), (2, ''TYPE_FLOAT''), (3, ''TYPE_INT64''), (4, ''TYPE_UINT64''),
      (5, ''TYPE_INT32''), (6, ''TYPE_FIXED64''), (7, ''TYPE_FIXED32''), (8, ''TYPE_BOOL''),
      (9, ''TYPE_STRING''), (10, ''TYPE_GROUP''), (11, ''TYPE_MESSAGE''), (12, ''TYPE_BYTES''),
      (13, ''TYPE_UINT32''), (14, ''TYPE_ENUM''), (15, ''TYPE_SFIXED32''),
      (16, ''TYPE_SFIXED64''), (17, ''TYPE_SINT32''), (18, ''TYPE_SINT64'')]"

definition FieldDescriptorProto_Label_name :: "(int32 \<times> string) list" where
  "FieldDescriptorProto_Label_name =
     [(1, ''LABEL_OPTIONAL''), (2, ''LABEL_REQUIRED''), (3, ''LABEL_REPEATED'')]"

definition EnumName :: "(int32 \<times> string) list \<Rightarrow> int32 \<Rightarrow> string" where
  "EnumName m v = (case map_of m v of Some s \<Rightarrow> s | None \<Rightarrow> sprint_d (sint v))"

definition sprint_enum_ptr :: "(int32 \<times> string) list \<Rightarrow> int32 option \<Rightarrow> string" where
  "sprint_enum_ptr m p = (case p of None \<Rightarrow> ''<nil>'' | Some v \<Rightarrow> EnumName m v)"

text \<open>
  Modelled from the spec: the struct \<open>ProblemChangedFieldComplexType\<close> and its \<open>String()\<close>
  are not among the sources (\<open>diffFields\<close> builds the struct with the fields \<open>Message\<close>,
  \<open>Field\<close>, \<open>OldType\<close>, \<open>NewType\<close>). The spec renders a changed reference type by the
  template of a changed type kind, the two types being the fully-qualified reference
  strings; \<open>TestDiffing\<close> expects the same text.
\<close>

definition ProblemChangedFieldComplexType_String ::
  "string \<Rightarrow> string \<Rightarrow> string \<Rightarrow> string \<Rightarrow> string" where
  "ProblemChangedFieldComplexType_String p_Message p_Field p_OldType p_NewType =
     ''changed types for field '' @ quoted p_Field @ '' on message '' @ quoted p_Message
       @ '': '' @ p_OldType @ '' -> '' @ p_NewType"

fun Change_String :: "Change \<Rightarrow> string" where
  "Change_String (ProblemChangedFieldType p_Message p_Number p_Field p_OldType p_NewType) =
     ''changed types for field '' @ quoted p_Field @ '' on message '' @ quoted p_Message @ '': ''
       @ sprint_enum_ptr FieldDescriptorProto_Type_name p_OldType @ '' -> ''
       @ sprint_enum_ptr FieldDescriptorProto_Type_name p_NewType"
| "Change_String (ProblemChangedFieldName p_Message p_Number p_OldName p_NewName) =
     ''changed name for field #'' @ sprint_d (sint p_Number) @ '' on message '' @ quoted p_Message
       @ '': '' @ p_OldName @ '' -> '' @ p_NewName"
| "Change_String (ProblemChangedFieldLabel p_Message p_Field p_OldLabel p_NewLabel) =
     ''changed label for field '' @ quoted p_Field @ '' on message '' @ quoted p_Message @ '': ''
       @ sprint_enum_ptr FieldDescriptorProto_Label_name p_OldLabel @ '' -> ''
       @ sprint_enum_ptr FieldDescriptorProto_Label_name p_NewLabel"
| "Change_String (ProblemChangedFieldComplexType p_Message p_Field p_OldType p_NewType) =
     ProblemChangedFieldComplexType_String p_Message p_Field p_OldType p_NewType"
| "Change_String (ProblemRemovedField p_Message p_Field) =
     ''removed field '' @ quoted p_Field @ '' from message '' @ quoted p_Message"
| "Change_String (ProblemRemovedServiceMethod p_Service p_Name) =
     ''removed method '' @ quoted p_Name @ '' from service '' @ quoted p_Service"
| "Change_String (ProblemChangedService p_Service p_Name p_Side p_OldType p_NewType) =
     ''changed '' @ p_Side @ '' type for method '' @ quoted p_Name @ '' on service ''
       @ quoted p_Service @ '': '' @ p_OldType @ '' -> '' @ p_NewType"
| "Change_String (ProblemRemovedEnumValue p_Enum p_Name) =
     ''removed value '' @ quoted p_Name @ '' from enum '' @ quoted p_Enum"
| "Change_String (ProblemChangeEnumValue p_Enum p_Name p_OldValue p_NewValue) =
     ''changed value '' @ quoted p_Name @ '' on enum '' @ quoted p_Enum @ '': ''
       @ sprint_d (sint p_OldValue) @ '' -> '' @ sprint_d (sint p_NewValue)"
| "Change_String (ProblemChangeEnumName p_Enum p_Number p_OldName p_NewName) =
     ''changed name of field #'' @ sprint_d (sint p_Number) @ '' on enum '' @ quoted p_Enum
       @ '': '' @ p_OldName @ '' -> '' @ p_NewName"
| "Change_String (ProblemRemovedEnum p_Enum) = ''removed enum '' @ quoted p_Enum"
| "Change_String (ProblemRemovedMessage p_Message) = ''removed message '' @ quoted p_Message"
| "Change_String (ProblemRemovedPackage p_Package) = ''removed package '' @ quoted p_Package"
| "Change_String (ProblemRemovedService p_Name) = ''removed service '' @ quoted p_Name"
| "Change_String (ProblemChangedServiceStreaming p_Service p_Name p_Side p_OldStream p_NewStream) =
     ''changed '' @ p_Side @ '' streaming for method '' @ quoted p_Name @ '' on service ''
       @ quoted p_Service @ '': '' @ sprint_t (p_OldStream \<noteq> None) @ '' -> ''
       @ sprint_t (p_NewStream \<noteq> None)"
| "Change_String (ProblemUnreservedFieldName p_Message p_Name) =
     ''un-reserved field name '' @ quoted p_Name @ '' from message '' @ quoted p_Message"
| "Change_String (ProblemUnreservedFieldNumber p_Message p_Start p_End) =
     (if 1 <s p_End - p_Start
      then ''un-reserved field number(s) in range '' @ sprint_d (sint p_Start) @ '' to ''
             @ sprint_d (sint (p_End - 1)) @ '' from message '' @ quoted p_Message
      else ''un-reserved field number '' @ sprint_d (sint p_Start) @ '' from message ''
             @ quoted p_Message)"

text \<open>
  \<open>%s\<close> on the slice \<open>report.Changes\<close>: an opening bracket, the elements each rendered by
  its \<open>String()\<close> with one space before every element but the first, a closing bracket.
\<close>

fun sprint_elems :: "nat \<Rightarrow> Change list \<Rightarrow> string" where
  "sprint_elems i [] = []"
| "sprint_elems i (c # cs) =
     (if 0 < i then '' '' else []) @ Change_String c @ sprint_elems (Suc i) cs"

definition sprint_Changes :: "Change list \<Rightarrow> string" where
  "sprint_Changes cs = ''['' @ sprint_elems 0 cs @ '']''"

section \<open>The differ\<close>

text \<open>
  A Go map is a partial function. The loops that fill an index assign \<open>m[key] = x\<close> for each
  element in turn, so a later element with the same key replaces an earlier one.
\<close>

definition index_into :: "('a \<Rightarrow> 'k) \<Rightarrow> ('k \<rightharpoonup> 'a) \<Rightarrow> 'a list \<Rightarrow> ('k \<rightharpoonup> 'a)" where
  "index_into key m xs = foldl (\<lambda>m x. m(key x \<mapsto> x)) m xs"

definition index_by :: "('a \<Rightarrow> 'k) \<Rightarrow> 'a list \<Rightarrow> ('k \<rightharpoonup> 'a)" where
  "index_by key xs = index_into key Map.empty xs"

subsection \<open>Enums\<close>

definition diffEnum_value ::
  "(int32 \<rightharpoonup> EnumValueDescriptorProto) \<Rightarrow> (string \<rightharpoonup> EnumValueDescriptorProto) \<Rightarrow>
   EnumDescriptorProto \<Rightarrow> Report \<Rightarrow> EnumValueDescriptorProto \<Rightarrow> Report" where
  "diffEnum_value byvalue byname previous report v =
     (case byvalue (value_Number v) of
        Some _ \<Rightarrow> report
      | None \<Rightarrow>
          (case byname (value_Name v) of
             Some next \<Rightarrow>
               Add report (ProblemChangeEnumValue (enum_Name previous) (value_Name v)
                             (value_Number v) (value_Number next))
           | None \<Rightarrow> Add report (ProblemRemovedEnumValue (enum_Name previous) (value_Name v))))"

definition diffEnum_name ::
  "(int32 \<rightharpoonup> EnumValueDescriptorProto) \<Rightarrow> (string \<rightharpoonup> EnumValueDescriptorProto) \<Rightarrow>
   EnumDescriptorProto \<Rightarrow> Report \<Rightarrow> EnumValueDescriptorProto \<Rightarrow> Report" where
  "diffEnum_name byvalue byname previous report name =
     (case byname (value_Name name) of
        Some _ \<Rightarrow> report
      | None \<Rightarrow>
          (case byvalue (value_Number name) of
             Some next \<Rightarrow>
               Add report (ProblemChangeEnumName (enum_Name previous) (value_Number name)
                             (value_Name name) (value_Name next))
           | None \<Rightarrow> report))"

definition diffEnum :: "Report \<Rightarrow> EnumDescriptorProto \<Rightarrow> EnumDescriptorProto \<Rightarrow> Report" where
  "diffEnum report previous current =
     (let byvalue = index_by value_Number (enum_Value current);
          byname = index_by value_Name (enum_Value current);
          report = foldl (diffEnum_value byvalue byname previous) report (enum_Value previous)
      in foldl (diffEnum_name byvalue byname previous) report (enum_Value previous))"

subsection \<open>Services\<close>

definition diffService_method ::
  "(string \<rightharpoonup> MethodDescriptorProto) \<Rightarrow> ServiceDescriptorProto \<Rightarrow> ServiceDescriptorProto \<Rightarrow>
   Report \<Rightarrow> MethodDescriptorProto \<Rightarrow> Report" where
  "diffService_method curr_map previous current report prev =
     (case curr_map (method_Name prev) of
        None \<Rightarrow>
          Add report (ProblemRemovedServiceMethod (service_Name previous) (method_Name prev))
      | Some next \<Rightarrow>
          (let report =
                 (if InputType next \<noteq> InputType prev
                  then Add report (ProblemChangedService (service_Name current)
                         (method_Name prev) ''input'' (InputType prev) (InputType next))
                  else report);
               report =
                 (if OutputType next \<noteq> OutputType prev
                  then Add report (ProblemChangedService (service_Name current)
                         (method_Name prev) ''output'' (OutputType prev) (OutputType next))
                  else report);
               report =
                 (if ClientStreaming prev \<noteq> ClientStreaming next
                  then Add report (ProblemChangedServiceStreaming (service_Name current)
                         (method_Name prev) ''client'' (ClientStreaming prev)
                         (ClientStreaming next))
                  else report)
           in if ServerStreaming prev \<noteq> ServerStreaming next
              then Add report (ProblemChangedServiceStreaming (service_Name current)
                     (method_Name prev) ''server'' (ServerStreaming prev)
                     (ServerStreaming next))
              else report))"

definition diffService ::
  "Report \<Rightarrow> ServiceDescriptorProto \<Rightarrow> ServiceDescriptorProto \<Rightarrow> Report" where
  "diffService report previous current =
     (let curr_map = index_by method_Name (service_Method current)
      in foldl (diffService_method curr_map previous current) report (service_Method previous))"

subsection \<open>Messages\<close>

text \<open>
  In the three search loops (\<open>hasReserved\<close>, \<open>diffReservedNames\<close>, \<open>diffReservedNumbers\<close>) a
  flag starts false and is set, with a \<open>break\<close>, at the first element that passes the test:
  the flag ends as \<open>list_ex\<close> of the test.
\<close>

definition hasReserved :: "DescriptorProto \<Rightarrow> FieldDescriptorProto \<Rightarrow> bool" where
  "hasReserved message field =
     (let reserved_name = list_ex (\<lambda>name. name = field_Name field) (msg_ReservedName message);
          reserved_number =
            list_ex (\<lambda>rrange. Start rrange \<le>s field_Number field
                               \<and> field_Number field \<le>s End rrange)
              (msg_ReservedRange message)
      in reserved_name \<and> reserved_number)"

definition diffFields_field ::
  "(int32 \<rightharpoonup> FieldDescriptorProto) \<Rightarrow> DescriptorProto \<Rightarrow> Report \<Rightarrow> FieldDescriptorProto \<Rightarrow>
   Report" where
  "diffFields_field curr_map current report field =
     (case curr_map (field_Number field) of
        None \<Rightarrow>
          (if \<not> hasReserved current field
           then Add report (ProblemRemovedField (msg_Name current) (field_Name field))
           else report)
      | Some next \<Rightarrow>
          (let report =
                 (if field_Name field \<noteq> field_Name next
                  then Add report (ProblemChangedFieldName (msg_Name current)
                         (field_Number field) (field_Name field) (field_Name next))
                  else report);
               report =
                 (if field_Type field \<noteq> field_Type next
                  then Add report (ProblemChangedFieldType (msg_Name current) 0
                         (field_Name field) (field_Type field) (field_Type next))
                  else if field_TypeName field \<noteq> None \<and> field_TypeName next \<noteq> None
                          \<and> field_TypeName field \<noteq> field_TypeName next
                  then Add report (ProblemChangedFieldComplexType (msg_Name current)
                         (field_Name field) (the (field_TypeName field))
                         (the (field_TypeName next)))
                  else report)
           in if field_Label field \<noteq> field_Label next
              then Add report (ProblemChangedFieldLabel (msg_Name current) (field_Name field)
                     (field_Label field) (field_Label next))
              else report))"

definition diffFields :: "Report \<Rightarrow> DescriptorProto \<Rightarrow> DescriptorProto \<Rightarrow> Report" where
  "diffFields report previous current =
     (let curr_map = index_by field_Number (msg_Field current)
      in foldl (diffFields_field curr_map current) report (msg_Field previous))"

definition diffReservedNames :: "Report \<Rightarrow> DescriptorProto \<Rightarrow> DescriptorProto \<Rightarrow> Report" where
  "diffReservedNames report previous current =
     foldl (\<lambda>report prev_name.
              let found =
                    list_ex (\<lambda>curr_name. prev_name = curr_name) (msg_ReservedName current)
              in if \<not> found
                 then Add report (ProblemUnreservedFieldName (msg_Name current) prev_name)
                 else report)
       report (msg_ReservedName previous)"

definition diffReservedNumbers :: "Report \<Rightarrow> DescriptorProto \<Rightarrow> DescriptorProto \<Rightarrow> Report" where
  "diffReservedNumbers report previous current =
     foldl (\<lambda>report prev_range.
              let found = list_ex (\<lambda>curr_range. Start curr_range \<le>s Start prev_range
                                     \<and> End prev_range \<le>s End curr_range)
                            (msg_ReservedRange current)
              in if \<not> found
                 then Add report (ProblemUnreservedFieldNumber (msg_Name current)
                        (Start prev_range) (End prev_range))
                 else report)
       report (msg_ReservedRange previous)"

definition diffMsg :: "Report \<Rightarrow> DescriptorProto \<Rightarrow> DescriptorProto \<Rightarrow> Report" where
  "diffMsg report previous current =
     (let report = diffFields report previous current;
          report = diffReservedNames report previous current
      in diffReservedNumbers report previous current)"

subsection \<open>Packages and files\<close>

text \<open>
  \<open>diffPackage\<close> is three blocks, for enums, services and messages. Each block fills an
  index of the current declarations of the package by name, over the files in order, and
  then walks the previous declarations, file by file.
\<close>

definition diffPackage_enums ::
  "Report \<Rightarrow> FileDescriptorProto list \<Rightarrow> FileDescriptorProto list \<Rightarrow> Report" where
  "diffPackage_enums report previous current =
     (let curr_map =
            foldl (\<lambda>curr_map file. index_into enum_Name curr_map (EnumType file))
              Map.empty current
      in foldl (\<lambda>report file.
                  foldl (\<lambda>report enum.
                           case curr_map (enum_Name enum) of
                             None \<Rightarrow> Add report (ProblemRemovedEnum (enum_Name enum))
                           | Some next \<Rightarrow> diffEnum report enum next)
                    report (EnumType file))
           report previous)"

definition diffPackage_services ::
  "Report \<Rightarrow> FileDescriptorProto list \<Rightarrow> FileDescriptorProto list \<Rightarrow> Report" where
  "diffPackage_services report previous current =
     (let curr_map =
            foldl (\<lambda>curr_map file. index_into service_Name curr_map (Service file))
              Map.empty current
      in foldl (\<lambda>report file.
                  foldl (\<lambda>report srv.
                           case curr_map (service_Name srv) of
                             None \<Rightarrow> Add report (ProblemRemovedService (service_Name srv))
                           | Some next \<Rightarrow> diffService report srv next)
                    report (Service file))
           report previous)"

definition diffPackage_messages ::
  "Report \<Rightarrow> FileDescriptorProto list \<Rightarrow> FileDescriptorProto list \<Rightarrow> Report" where
  "diffPackage_messages report previous current =
     (let curr_map =
            foldl (\<lambda>curr_map file. index_into msg_Name curr_map (MessageType file))
              Map.empty current
      in foldl (\<lambda>report file.
                  foldl (\<lambda>report msg.
                           case curr_map (msg_Name msg) of
                             None \<Rightarrow> Add report (ProblemRemovedMessage (msg_Name msg))
                           | Some next \<Rightarrow> diffMsg report msg next)
                    report (MessageType file))
           report previous)"

definition diffPackage ::
  "Report \<Rightarrow> FileDescriptorProto list \<Rightarrow> FileDescriptorProto list \<Rightarrow> Report" where
  "diffPackage report previous current =
     (let report = diffPackage_enums report previous current;
          report = diffPackage_services report previous current
      in diffPackage_messages report previous current)"

definition groupByPackage ::
  "FileDescriptorProto list \<Rightarrow> (string \<rightharpoonup> FileDescriptorProto list)" where
  "groupByPackage files =
     foldl (\<lambda>by_package file.
              case by_package (Package file) of
                Some package_files \<Rightarrow> by_package(Package file \<mapsto> package_files @ [file])
              | None \<Rightarrow> by_package(Package file \<mapsto> [file]))
       Map.empty files"

text \<open>
  Go does not fix the order in which \<open>range\<close> visits the keys of a map. \<open>diffFiles\<close>
  therefore takes that order as its first argument: \<open>range_order ks m\<close> says that \<open>ks\<close> lists
  every key of \<open>m\<close> once. The loop visits keys only, so a name in \<open>ks\<close> that is no key of
  \<open>prev_by_package\<close> leaves the report as it is. The result is the report and the error,
  \<open>None\<close> for Go's nil and \<open>Some\<close> of the message otherwise.
\<close>

definition range_order :: "'k list \<Rightarrow> ('k \<rightharpoonup> 'v) \<Rightarrow> bool" where
  "range_order ks m \<longleftrightarrow> distinct ks \<and> set ks = dom m"

definition diffFiles ::
  "string list \<Rightarrow> FileDescriptorProto list \<Rightarrow> FileDescriptorProto list \<Rightarrow>
   Report \<times> string option" where
  "diffFiles ks previous current =
     (let report = \<lparr>Changes = []\<rparr>;
          prev_by_package = groupByPackage previous;
          curr_by_package = groupByPackage current;
          report =
            foldl (\<lambda>report package_name.
                     case prev_by_package package_name of
                       None \<Rightarrow> report
                     | Some files \<Rightarrow>
                         (case curr_by_package package_name of
                            None \<Rightarrow> Add report (ProblemRemovedPackage package_name)
                          | Some next \<Rightarrow> diffPackage report files next))
              report ks;
          err = (if 0 < length (Changes report)
                 then Some (''found '' @ sprint_d (int (length (Changes report)))
                            @ '' problems: '' @ sprint_Changes (Changes report))
                 else None)
      in (report, err))"

section \<open>What one loop step adds\<close>

text \<open>
  Every loop body of the differ only appends to the report. The Changes that a body adds for
  one element are read off by running it on the empty report.
\<close>

definition enum_value_changes ::
  "EnumDescriptorProto \<Rightarrow> EnumDescriptorProto \<Rightarrow> EnumValueDescriptorProto \<Rightarrow> Change list" where
  "enum_value_changes previous current v =
     Changes (diffEnum_value (index_by value_Number (enum_Value current))
                (index_by value_Name (enum_Value current)) previous \<lparr>Changes = []\<rparr> v)"

definition enum_name_changes ::
  "EnumDescriptorProto \<Rightarrow> EnumDescriptorProto \<Rightarrow> EnumValueDescriptorProto \<Rightarrow> Change list" where
  "enum_name_changes previous current v =
     Changes (diffEnum_name (index_by value_Number (enum_Value current))
                (index_by value_Name (enum_Value current)) previous \<lparr>Changes = []\<rparr> v)"

definition method_changes ::
  "ServiceDescriptorProto \<Rightarrow> ServiceDescriptorProto \<Rightarrow> MethodDescriptorProto \<Rightarrow> Change list"
  where
  "method_changes previous current prev =
     Changes (diffService_method (index_by method_Name (service_Method current)) previous
                current \<lparr>Changes = []\<rparr> prev)"

definition field_changes ::
  "DescriptorProto \<Rightarrow> FieldDescriptorProto \<Rightarrow> Change list" where
  "field_changes current field =
     Changes (diffFields_field (index_by field_Number (msg_Field current)) current
                \<lparr>Changes = []\<rparr> field)"

text \<open>
  The same for one previous enum, service or message of a package, given the index of the
  current declarations, and for one package name visited by \<open>diffFiles\<close>.
\<close>

definition enum_changes ::
  "(string \<rightharpoonup> EnumDescriptorProto) \<Rightarrow> EnumDescriptorProto \<Rightarrow> Change list" where
  "enum_changes curr_map enum =
     Changes (case curr_map (enum_Name enum) of
                None \<Rightarrow> Add \<lparr>Changes = []\<rparr> (ProblemRemovedEnum (enum_Name enum))
              | Some next \<Rightarrow> diffEnum \<lparr>Changes = []\<rparr> enum next)"

definition service_changes ::
  "(string \<rightharpoonup> ServiceDescriptorProto) \<Rightarrow> ServiceDescriptorProto \<Rightarrow> Change list" where
  "service_changes curr_map srv =
     Changes (case curr_map (service_Name srv) of
                None \<Rightarrow> Add \<lparr>Changes = []\<rparr> (ProblemRemovedService (service_Name srv))
              | Some next \<Rightarrow> diffService \<lparr>Changes = []\<rparr> srv next)"

definition message_changes ::
  "(string \<rightharpoonup> DescriptorProto) \<Rightarrow> DescriptorProto \<Rightarrow> Change list" where
  "message_changes curr_map msg =
     Changes (case curr_map (msg_Name msg) of
                None \<Rightarrow> Add \<lparr>Changes = []\<rparr> (ProblemRemovedMessage (msg_Name msg))
              | Some next \<Rightarrow> diffMsg \<lparr>Changes = []\<rparr> msg next)"

definition package_changes ::
  "FileDescriptorProto list \<Rightarrow> FileDescriptorProto list \<Rightarrow> string \<Rightarrow> Change list" where
  "package_changes previous current package_name =
     (case groupByPackage previous package_name of
        None \<Rightarrow> []
      | Some files \<Rightarrow>
          (case groupByPackage current package_name of
             None \<Rightarrow> [ProblemRemovedPackage package_name]
           | Some next \<Rightarrow> Changes (diffPackage \<lparr>Changes = []\<rparr> files next)))"

section \<open>Conditions on snapshots\<close>

text \<open>
  The files of one package, and its top-level declarations of each kind, in file order.
\<close>

definition package_files :: "FileDescriptorProto list \<Rightarrow> string \<Rightarrow> FileDescriptorProto list" where
  "package_files files p = filter (\<lambda>f. Package f = p) files"

definition package_enums :: "FileDescriptorProto list \<Rightarrow> string \<Rightarrow> EnumDescriptorProto list" where
  "package_enums files p = concat (map EnumType (package_files files p))"

definition package_services ::
  "FileDescriptorProto list \<Rightarrow> string \<Rightarrow> ServiceDescriptorProto list" where
  "package_services files p = concat (map Service (package_files files p))"

definition package_messages :: "FileDescriptorProto list \<Rightarrow> string \<Rightarrow> DescriptorProto list" where
  "package_messages files p = concat (map MessageType (package_files files p))"

text \<open>
  Within each package, every top-level name is declared once among the enums, once among
  the services and once among the messages.
\<close>

definition unique_toplevel :: "FileDescriptorProto list \<Rightarrow> bool" where
  "unique_toplevel files \<longleftrightarrow>
     (\<forall>p \<in> set (map Package files).
        distinct (map enum_Name (package_enums files p)) \<and>
        distinct (map service_Name (package_services files p)) \<and>
        distinct (map msg_Name (package_messages files p)))"

text \<open>
  In addition, every message numbers its fields without repetition and every service names
  its methods without repetition.
\<close>

definition unique_members :: "FileDescriptorProto list \<Rightarrow> bool" where
  "unique_members files \<longleftrightarrow>
     (\<forall>f \<in> set files.
        (\<forall>m \<in> set (MessageType f). distinct (map field_Number (msg_Field m))) \<and>
        (\<forall>s \<in> set (Service f). distinct (map method_Name (service_Method s))))"

text \<open>
  The current declaration extends the previous one of the same name: it keeps every value,
  method or field as it was and may add new ones. The current fields are numbered, and the
  current methods named, without repetition. Reserved names and ranges are unchanged.
\<close>

definition additive_enum :: "EnumDescriptorProto \<Rightarrow> EnumDescriptorProto \<Rightarrow> bool" where
  "additive_enum previous current \<longleftrightarrow>
     enum_Name current = enum_Name previous \<and>
     set (enum_Value previous) \<subseteq> set (enum_Value current)"

definition additive_service :: "ServiceDescriptorProto \<Rightarrow> ServiceDescriptorProto \<Rightarrow> bool" where
  "additive_service previous current \<longleftrightarrow>
     service_Name current = service_Name previous \<and>
     set (service_Method previous) \<subseteq> set (service_Method current) \<and>
     distinct (map method_Name (service_Method current))"

definition additive_message :: "DescriptorProto \<Rightarrow> DescriptorProto \<Rightarrow> bool" where
  "additive_message previous current \<longleftrightarrow>
     msg_Name current = msg_Name previous \<and>
     set (msg_Field previous) \<subseteq> set (msg_Field current) \<and>
     distinct (map field_Number (msg_Field current)) \<and>
     msg_ReservedName current = msg_ReservedName previous \<and>
     msg_ReservedRange current = msg_ReservedRange previous"

text \<open>
  The current snapshot extends the previous one: every previous package is still there, and
  in it every previous enum, service and message has a current extension; the current
  top-level names of such a package are declared once for each kind.
\<close>

definition additive :: "FileDescriptorProto list \<Rightarrow> FileDescriptorProto list \<Rightarrow> bool" where
  "additive previous current \<longleftrightarrow>
     (\<forall>p \<in> set (map Package previous).
        p \<in> set (map Package current) \<and>
        (\<forall>e \<in> set (package_enums previous p).
           \<exists>e' \<in> set (package_enums current p). additive_enum e e') \<and>
        distinct (map enum_Name (package_enums current p)) \<and>
        (\<forall>s \<in> set (package_services previous p).
           \<exists>s' \<in> set (package_services current p). additive_service s s') \<and>
        distinct (map service_Name (package_services current p)) \<and>
        (\<forall>m \<in> set (package_messages previous p).
           \<exists>m' \<in> set (package_messages current p). additive_message m m') \<and>
        distinct (map msg_Name (package_messages current p)))"

section \<open>Example declarations\<close>

text \<open>
  An enum before and after an edit that renumbers \<open>bat\<close>, renames \<open>foo\<close> to \<open>bar\<close>,
  drops \<open>gone\<close> and keeps \<open>same\<close>.
\<close>

abbreviation ex_enum_previous :: EnumDescriptorProto where
  "ex_enum_previous \<equiv>
     \<lparr>enum_Name = ''FOO'',
      enum_Value = [\<lparr>value_Name = ''bat'', value_Number = 1\<rparr>,
                    \<lparr>value_Name = ''foo'', value_Number = 2\<rparr>,
                    \<lparr>value_Name = ''gone'', value_Number = 7\<rparr>,
                    \<lparr>value_Name = ''same'', value_Number = 4\<rparr>]\<rparr>"

abbreviation ex_enum_current :: EnumDescriptorProto where
  "ex_enum_current \<equiv>
     \<lparr>enum_Name = ''FOO'',
      enum_Value = [\<lparr>value_Name = ''bat'', value_Number = 5\<rparr>,
                    \<lparr>value_Name = ''bar'', value_Number = 2\<rparr>,
                    \<lparr>value_Name = ''same'', value_Number = 4\<rparr>]\<rparr>"

text \<open>
  Builders for small declarations, and a file before and after an edit that only adds: a
  field, a message, an enum value and a method, next to a file of a new package.
\<close>

abbreviation ex_value :: "string \<Rightarrow> int32 \<Rightarrow> EnumValueDescriptorProto" where
  "ex_value name number \<equiv> \<lparr>value_Name = name, value_Number = number\<rparr>"

abbreviation ex_enum :: "string \<Rightarrow> EnumValueDescriptorProto list \<Rightarrow> EnumDescriptorProto" where
  "ex_enum name vs \<equiv> \<lparr>enum_Name = name, enum_Value = vs\<rparr>"

abbreviation ex_field :: "string \<Rightarrow> int32 \<Rightarrow> FieldDescriptorProto" where
  "ex_field name number \<equiv>
     \<lparr>field_Name = name, field_Number = number, field_Label = Some 1, field_Type = Some 9,
      field_TypeName = None\<rparr>"

abbreviation ex_message :: "string \<Rightarrow> FieldDescriptorProto list \<Rightarrow> DescriptorProto" where
  "ex_message name fs \<equiv>
     \<lparr>msg_Name = name, msg_Field = fs, msg_ReservedRange = [\<lparr>Start = 8, End = 10\<rparr>],
      msg_ReservedName = [''old'']\<rparr>"

abbreviation ex_method :: "string \<Rightarrow> string \<Rightarrow> MethodDescriptorProto" where
  "ex_method name input \<equiv>
     \<lparr>method_Name = name, InputType = input, OutputType = ''.helloworld.FooResponse'',
      ClientStreaming = None, ServerStreaming = None\<rparr>"

abbreviation ex_service :: "string \<Rightarrow> MethodDescriptorProto list \<Rightarrow> ServiceDescriptorProto" where
  "ex_service name ms \<equiv> \<lparr>service_Name = name, service_Method = ms\<rparr>"

abbreviation ex_file ::
  "string \<Rightarrow> DescriptorProto list \<Rightarrow> EnumDescriptorProto list \<Rightarrow> ServiceDescriptorProto list \<Rightarrow>
   FileDescriptorProto" where
  "ex_file pkg ms es ss \<equiv>
     \<lparr>Package = pkg, MessageType = ms, EnumType = es, Service = ss\<rparr>"

abbreviation ex_file_previous :: FileDescriptorProto where
  "ex_file_previous \<equiv>
     ex_file ''helloworld'' [ex_message ''HelloRequest'' [ex_field ''name'' 1]]
       [ex_enum ''FOO'' [ex_value ''bat'' 0]]
       [ex_service ''Foo'' [ex_method ''Invoke'' ''.helloworld.FooRequest'']]"

abbreviation ex_file_current :: FileDescriptorProto where
  "ex_file_current \<equiv>
     ex_file ''helloworld''
       [ex_message ''HelloRequest'' [ex_field ''name'' 1, ex_field ''age'' 2],
        ex_message ''HelloReply'' [ex_field ''text'' 1]]
       [ex_enum ''FOO'' [ex_value ''bat'' 0, ex_value ''baz'' 1]]
       [ex_service ''Foo'' [ex_method ''Invoke'' ''.helloworld.FooRequest'',
                            ex_method ''Bar'' ''.helloworld.BarRequest'']]"

abbreviation ex_file_new :: FileDescriptorProto where
  "ex_file_new \<equiv> ex_file ''other'' [ex_message ''HelloRequest'' []] [] []"

section \<open>Auxiliary facts\<close>

subsection \<open>Indexes\<close>

lemma index_into_append: "index_into key m (xs @ ys) = index_into key (index_into key m xs) ys"
  by (simp add: index_into_def)

lemma index_into_snoc: "index_into key m (xs @ [x]) = (index_into key m xs)(key x \<mapsto> x)"
  by (simp add: index_into_def)

lemma index_into_Nil: "index_into key m [] = m"
  by (simp add: index_into_def)

lemma index_into_None: "index_into key m xs k = None \<longleftrightarrow> m k = None \<and> k \<notin> key ` set xs"
  by (induction xs rule: rev_induct) (auto simp: index_into_snoc index_into_Nil)

lemma index_into_Some:
  "index_into key m xs k = Some x \<Longrightarrow> m k = Some x \<or> (x \<in> set xs \<and> key x = k)"
  by (induction xs rule: rev_induct) (auto simp: index_into_snoc index_into_Nil split: if_splits)

lemma index_into_distinct:
  "distinct (map key xs) \<Longrightarrow> x \<in> set xs \<Longrightarrow> index_into key m xs (key x) = Some x"
proof (induction xs rule: rev_induct)
  case Nil
  then show ?case by simp
next
  case (snoc y ys)
  show ?case
  proof (cases "x = y")
    case True
    then show ?thesis by (simp add: index_into_snoc)
  next
    case False
    with snoc.prems have "x \<in> set ys" and "key y \<noteq> key x" by auto
    with snoc show ?thesis by (simp add: index_into_snoc)
  qed
qed

lemma index_into_files:
  "foldl (\<lambda>m f. index_into key m (g f)) m fs = index_into key m (concat (map g fs))"
  by (induction fs arbitrary: m) (simp_all add: index_into_append index_into_Nil)

lemma index_by_None: "index_by key xs k = None \<longleftrightarrow> k \<notin> key ` set xs"
  by (simp add: index_by_def index_into_None)

lemma index_by_Some: "index_by key xs k = Some x \<Longrightarrow> x \<in> set xs \<and> key x = k"
  using index_into_Some [of key Map.empty xs k x] by (simp add: index_by_def)

lemma index_into_last:
  "index_into key m xs k =
   (if filter (\<lambda>x. key x = k) xs = [] then m k
    else Some (last (filter (\<lambda>x. key x = k) xs)))"
  by (induction xs rule: rev_induct) (simp_all add: index_into_snoc index_into_Nil)

lemma index_by_last:
  "k \<in> key ` set xs \<Longrightarrow> index_by key xs k = Some (last (filter (\<lambda>x. key x = k) xs))"
  by (auto simp: index_by_def index_into_last filter_empty_conv)

lemma index_by_distinct:
  "distinct (map key xs) \<Longrightarrow> x \<in> set xs \<Longrightarrow> index_by key xs (key x) = Some x"
  by (simp add: index_by_def index_into_distinct)

subsection \<open>Loops append to the report\<close>

lemma Changes_Add: "Changes (Add r c) = Changes r @ [c]"
  by (simp add: Add_def)

lemma Changes_foldl:
  assumes "\<And>r x. Changes (step r x) = Changes r @ e x"
  shows "Changes (foldl step r xs) = Changes r @ concat (map e xs)"
  using assms by (induction xs arbitrary: r) simp_all

lemma diffEnum_value_appends:
  "Changes (diffEnum_value bv bn p r v) =
   Changes r @ Changes (diffEnum_value bv bn p \<lparr>Changes = []\<rparr> v)"
  by (simp add: diffEnum_value_def Changes_Add split: option.splits)

lemma diffEnum_name_appends:
  "Changes (diffEnum_name bv bn p r v) =
   Changes r @ Changes (diffEnum_name bv bn p \<lparr>Changes = []\<rparr> v)"
  by (simp add: diffEnum_name_def Changes_Add split: option.splits)

lemma diffService_method_appends:
  "Changes (diffService_method c p q r m) =
   Changes r @ Changes (diffService_method c p q \<lparr>Changes = []\<rparr> m)"
  by (simp add: diffService_method_def Changes_Add Let_def split: option.splits)

lemma diffFields_field_appends:
  "Changes (diffFields_field c q r f) =
   Changes r @ Changes (diffFields_field c q \<lparr>Changes = []\<rparr> f)"
  by (simp add: diffFields_field_def Changes_Add Let_def split: option.splits)

lemma Changes_diffEnum:
  "Changes (diffEnum report previous current) =
   Changes report @ concat (map (enum_value_changes previous current) (enum_Value previous))
     @ concat (map (enum_name_changes previous current) (enum_Value previous))"
  unfolding diffEnum_def Let_def enum_value_changes_def enum_name_changes_def
  by (simp add: Changes_foldl [OF diffEnum_value_appends] Changes_foldl [OF diffEnum_name_appends])

lemma Changes_diffService:
  "Changes (diffService report previous current) =
   Changes report @ concat (map (method_changes previous current) (service_Method previous))"
  unfolding diffService_def Let_def method_changes_def
  by (simp add: Changes_foldl [OF diffService_method_appends])

lemma Changes_diffFields:
  "Changes (diffFields report previous current) =
   Changes report @ concat (map (field_changes current) (msg_Field previous))"
  unfolding diffFields_def Let_def field_changes_def
  by (simp add: Changes_foldl [OF diffFields_field_appends])

lemma Changes_diffReservedNames:
  "Changes (diffReservedNames report previous current) =
   Changes report @ map (ProblemUnreservedFieldName (msg_Name current))
     (filter (\<lambda>n. n \<notin> set (msg_ReservedName current)) (msg_ReservedName previous))"
proof -
  have "Changes (foldl (\<lambda>report prev_name.
              let found =
                    list_ex (\<lambda>curr_name. prev_name = curr_name) (msg_ReservedName current)
              in if \<not> found
                 then Add report (ProblemUnreservedFieldName (msg_Name current) prev_name)
                 else report) r xs) = Changes r @ map (ProblemUnreservedFieldName (msg_Name current))
     (filter (\<lambda>n. n \<notin> set (msg_ReservedName current)) xs)"
    for r :: Report and xs :: "string list"
    by (induction xs arbitrary: r) (auto simp: Changes_Add list_ex_iff)
  then show ?thesis by (simp add: diffReservedNames_def)
qed

lemma Changes_diffReservedNumbers:
  "Changes (diffReservedNumbers report previous current) =
   Changes report @
   map (\<lambda>p. ProblemUnreservedFieldNumber (msg_Name current) (Start p) (End p))
     (filter (\<lambda>p. \<not> (\<exists>c \<in> set (msg_ReservedRange current). Start c \<le>s Start p \<and> End p \<le>s End c))
        (msg_ReservedRange previous))"
proof -
  have "Changes (foldl (\<lambda>report prev_range.
              let found = list_ex (\<lambda>curr_range. Start curr_range \<le>s Start prev_range
                                     \<and> End prev_range \<le>s End curr_range)
                            (msg_ReservedRange current)
              in if \<not> found
                 then Add report (ProblemUnreservedFieldNumber (msg_Name current)
                        (Start prev_range) (End prev_range))
                 else report) r xs) = Changes r @
   map (\<lambda>p. ProblemUnreservedFieldNumber (msg_Name current) (Start p) (End p))
     (filter (\<lambda>p. \<not> (\<exists>c \<in> set (msg_ReservedRange current). Start c \<le>s Start p \<and> End p \<le>s End c))
        xs)"
    for r :: Report and xs :: "DescriptorProto_ReservedRange list"
    by (induction xs arbitrary: r) (auto simp: Changes_Add list_ex_iff)
  then show ?thesis by (simp add: diffReservedNumbers_def)
qed


subsection \<open>Packages and files\<close>

lemma Changes_foldl_files:
  assumes "\<And>r x. Changes (step r x) = Changes r @ e x"
  shows "Changes (foldl (\<lambda>r file. foldl step r (g file)) r files) =
         Changes r @ concat (map e (concat (map g files)))"
  by (induction files arbitrary: r) (simp_all add: Changes_foldl [OF assms])

lemma diffEnum_appends:
  "Changes (diffEnum r p c) = Changes r @ Changes (diffEnum \<lparr>Changes = []\<rparr> p c)"
  by (simp add: Changes_diffEnum)

lemma diffService_appends:
  "Changes (diffService r p c) = Changes r @ Changes (diffService \<lparr>Changes = []\<rparr> p c)"
  by (simp add: Changes_diffService)

lemma Changes_diffMsg:
  "Changes (diffMsg report previous current) =
   Changes report @ Changes (diffFields \<lparr>Changes = []\<rparr> previous current)
     @ Changes (diffReservedNames \<lparr>Changes = []\<rparr> previous current)
     @ Changes (diffReservedNumbers \<lparr>Changes = []\<rparr> previous current)"
  by (simp add: diffMsg_def Let_def Changes_diffFields Changes_diffReservedNames
      Changes_diffReservedNumbers)

lemma diffMsg_appends:
  "Changes (diffMsg r p c) = Changes r @ Changes (diffMsg \<lparr>Changes = []\<rparr> p c)"
  by (simp add: Changes_diffMsg)

lemma Changes_diffPackage_enums:
  "Changes (diffPackage_enums report previous current) =
   Changes report @
   concat (map (enum_changes (index_by enum_Name (concat (map EnumType current))))
             (concat (map EnumType previous)))"
proof -
  have step: "Changes (case m (enum_Name enum) of
                 None \<Rightarrow> Add r (ProblemRemovedEnum (enum_Name enum))
               | Some next \<Rightarrow> diffEnum r enum next) = Changes r @ enum_changes m enum"
    for m r enum
    by (cases "m (enum_Name enum)") (simp_all add: enum_changes_def Changes_Add, rule diffEnum_appends)
  show ?thesis
    unfolding diffPackage_enums_def Let_def index_into_files index_by_def [symmetric]
    by (rule Changes_foldl_files) (rule step)
qed

lemma Changes_diffPackage_services:
  "Changes (diffPackage_services report previous current) =
   Changes report @
   concat (map (service_changes (index_by service_Name (concat (map Service current))))
             (concat (map Service previous)))"
proof -
  have step: "Changes (case m (service_Name srv) of
                 None \<Rightarrow> Add r (ProblemRemovedService (service_Name srv))
               | Some next \<Rightarrow> diffService r srv next) = Changes r @ service_changes m srv"
    for m r srv
    by (cases "m (service_Name srv)") (simp_all add: service_changes_def Changes_Add, rule diffService_appends)
  show ?thesis
    unfolding diffPackage_services_def Let_def index_into_files index_by_def [symmetric]
    by (rule Changes_foldl_files) (rule step)
qed

lemma Changes_diffPackage_messages:
  "Changes (diffPackage_messages report previous current) =
   Changes report @
   concat (map (message_changes (index_by msg_Name (concat (map MessageType current))))
             (concat (map MessageType previous)))"
proof -
  have step: "Changes (case m (msg_Name msg) of
                 None \<Rightarrow> Add r (ProblemRemovedMessage (msg_Name msg))
               | Some next \<Rightarrow> diffMsg r msg next) = Changes r @ message_changes m msg"
    for m r msg
    by (cases "m (msg_Name msg)") (simp_all add: message_changes_def Changes_Add, rule diffMsg_appends)
  show ?thesis
    unfolding diffPackage_messages_def Let_def index_into_files index_by_def [symmetric]
    by (rule Changes_foldl_files) (rule step)
qed

lemma Changes_diffPackage:
  "Changes (diffPackage report previous current) =
   Changes report
   @ concat (map (enum_changes (index_by enum_Name (concat (map EnumType current))))
               (concat (map EnumType previous)))
   @ concat (map (service_changes (index_by service_Name (concat (map Service current))))
               (concat (map Service previous)))
   @ concat (map (message_changes (index_by msg_Name (concat (map MessageType current))))
               (concat (map MessageType previous)))"
  by (simp add: diffPackage_def Let_def Changes_diffPackage_enums Changes_diffPackage_services
      Changes_diffPackage_messages)

lemma groupByPackage_eq:
  "groupByPackage files p =
   (if p \<in> Package ` set files then Some (package_files files p) else None)"
proof (induction files rule: rev_induct)
  case Nil
  then show ?case by (simp add: groupByPackage_def)
next
  case (snoc f fs)
  have unfold: "groupByPackage (fs @ [f]) =
    (case groupByPackage fs (Package f) of
       Some pf \<Rightarrow> (groupByPackage fs)(Package f \<mapsto> pf @ [f])
     | None \<Rightarrow> (groupByPackage fs)(Package f \<mapsto> [f]))"
    unfolding groupByPackage_def by simp
  show ?case
  proof (cases "Package f = p")
    case True
    with snoc show ?thesis
      by (auto simp: unfold package_files_def filter_empty_conv image_iff)
  next
    case False
    with snoc show ?thesis
      by (auto simp: unfold package_files_def split: option.splits)
  qed
qed

lemma Changes_diffFiles:
  "Changes (fst (diffFiles ks previous current)) =
   concat (map (package_changes previous current) ks)"
proof -
  have step: "Changes (case groupByPackage previous k of
                 None \<Rightarrow> r
               | Some files \<Rightarrow>
                   (case groupByPackage current k of
                      None \<Rightarrow> Add r (ProblemRemovedPackage k)
                    | Some next \<Rightarrow> diffPackage r files next)) =
              Changes r @ package_changes previous current k" for r k
    by (simp add: package_changes_def Changes_Add Changes_diffPackage split: option.splits)
  show ?thesis
    by (simp add: diffFiles_def Let_def Changes_foldl [OF step])
qed

subsection \<open>Additive edits add no Change\<close>

lemma index_by_present: "x \<in> set xs \<Longrightarrow> \<exists>y. index_by key xs (key x) = Some y"
  using index_by_None [of key xs "key x"] by (cases "index_by key xs (key x)") auto

lemma additive_enum_no_changes:
  assumes "additive_enum p c"
  shows "Changes (diffEnum \<lparr>Changes = []\<rparr> p c) = []"
proof -
  have "enum_value_changes p c v = [] \<and> enum_name_changes p c v = []"
    if "v \<in> set (enum_Value p)" for v
  proof -
    from that assms have v: "v \<in> set (enum_Value c)"
      by (auto simp: additive_enum_def)
    from index_by_present [OF v, of value_Number] index_by_present [OF v, of value_Name]
    show ?thesis
      by (auto simp: enum_value_changes_def enum_name_changes_def diffEnum_value_def
          diffEnum_name_def)
  qed
  then show ?thesis by (simp add: Changes_diffEnum)
qed

lemma additive_service_no_changes:
  assumes "additive_service p c"
  shows "Changes (diffService \<lparr>Changes = []\<rparr> p c) = []"
proof -
  have "method_changes p c m = []" if "m \<in> set (service_Method p)" for m
  proof -
    from that assms have "index_by method_Name (service_Method c) (method_Name m) = Some m"
      by (auto simp: additive_service_def intro: index_by_distinct)
    then show ?thesis by (simp add: method_changes_def diffService_method_def)
  qed
  then show ?thesis by (simp add: Changes_diffService)
qed

lemma additive_message_no_changes:
  assumes "additive_message p c"
  shows "Changes (diffMsg \<lparr>Changes = []\<rparr> p c) = []"
proof -
  have "field_changes c f = []" if "f \<in> set (msg_Field p)" for f
  proof -
    from that assms have "index_by field_Number (msg_Field c) (field_Number f) = Some f"
      by (auto simp: additive_message_def intro: index_by_distinct)
    then show ?thesis by (simp add: field_changes_def diffFields_field_def)
  qed
  moreover have "filter (\<lambda>n. n \<notin> set (msg_ReservedName c)) (msg_ReservedName p) = []"
    using assms by (simp add: additive_message_def)
  moreover have "filter (\<lambda>r. \<not> (\<exists>c \<in> set (msg_ReservedRange c). Start c \<le>s Start r \<and> End r \<le>s End c))
                   (msg_ReservedRange p) = []"
    using assms by (auto simp: additive_message_def filter_empty_conv)
  ultimately show ?thesis
    by (simp add: Changes_diffMsg Changes_diffFields Changes_diffReservedNames
        Changes_diffReservedNumbers)
qed

lemma additive_package_no_changes:
  assumes "additive previous current"
  shows "package_changes previous current k = []"
proof (cases "k \<in> Package ` set previous")
  case False
  then show ?thesis by (simp add: package_changes_def groupByPackage_eq)
next
  case True
  with assms have cur: "k \<in> Package ` set current"
    and enums: "\<forall>e \<in> set (package_enums previous k).
                  \<exists>e' \<in> set (package_enums current k). additive_enum e e'"
    and denums: "distinct (map enum_Name (package_enums current k))"
    and services: "\<forall>s \<in> set (package_services previous k).
                  \<exists>s' \<in> set (package_services current k). additive_service s s'"
    and dservices: "distinct (map service_Name (package_services current k))"
    and messages: "\<forall>m \<in> set (package_messages previous k).
                  \<exists>m' \<in> set (package_messages current k). additive_message m m'"
    and dmessages: "distinct (map msg_Name (package_messages current k))"
    by (auto simp: additive_def)
  have e: "enum_changes (index_by enum_Name (package_enums current k)) e = []"
    if "e \<in> set (package_enums previous k)" for e
  proof -
    from that enums obtain e' where e': "e' \<in> set (package_enums current k)" "additive_enum e e'"
      by blast
    then have "index_by enum_Name (package_enums current k) (enum_Name e) = Some e'"
      using index_by_distinct [OF denums e'(1)] by (simp add: additive_enum_def)
    with e'(2) show ?thesis by (simp add: enum_changes_def additive_enum_no_changes)
  qed
  have s: "service_changes (index_by service_Name (package_services current k)) s = []"
    if "s \<in> set (package_services previous k)" for s
  proof -
    from that services obtain s' where s': "s' \<in> set (package_services current k)"
      "additive_service s s'"
      by blast
    then have "index_by service_Name (package_services current k) (service_Name s) = Some s'"
      using index_by_distinct [OF dservices s'(1)] by (simp add: additive_service_def)
    with s'(2) show ?thesis by (simp add: service_changes_def additive_service_no_changes)
  qed
  have m: "message_changes (index_by msg_Name (package_messages current k)) m = []"
    if "m \<in> set (package_messages previous k)" for m
  proof -
    from that messages obtain m' where m': "m' \<in> set (package_messages current k)"
      "additive_message m m'"
      by blast
    then have "index_by msg_Name (package_messages current k) (msg_Name m) = Some m'"
      using index_by_distinct [OF dmessages m'(1)] by (simp add: additive_message_def)
    with m'(2) show ?thesis by (simp add: message_changes_def additive_message_no_changes)
  qed
  from True cur e s m show ?thesis
    by (simp add: package_changes_def groupByPackage_eq Changes_diffPackage
        package_enums_def [symmetric] package_services_def [symmetric]
        package_messages_def [symmetric])
qed

lemma additive_diffFiles:
  assumes "additive previous current"
  shows "diffFiles ks previous current = (\<lparr>Changes = []\<rparr>, None)"
proof -
  have "Changes (fst (diffFiles ks previous current)) = []"
    by (simp add: Changes_diffFiles additive_package_no_changes [OF assms])
  moreover have "snd (diffFiles ks previous current) = None
    \<longleftrightarrow> Changes (fst (diffFiles ks previous current)) = []"
    by (simp add: diffFiles_def Let_def)
  ultimately show ?thesis
    by (simp add: prod_eq_iff)
qed

lemma unique_additive:
  assumes "unique_toplevel files" "unique_members files"
  shows "additive files files"
  unfolding additive_def
proof (intro ballI conjI)
  fix p assume p: "p \<in> set (map Package files)"
  then show "p \<in> set (map Package files)" .
  from p assms(1) show "distinct (map enum_Name (package_enums files p))"
    "distinct (map service_Name (package_services files p))"
    "distinct (map msg_Name (package_messages files p))"
    by (auto simp: unique_toplevel_def)
  fix e assume "e \<in> set (package_enums files p)"
  then show "\<exists>e' \<in> set (package_enums files p). additive_enum e e'"
    by (auto simp: additive_enum_def)
next
  fix p s assume "p \<in> set (map Package files)" and s: "s \<in> set (package_services files p)"
  then obtain f where "f \<in> set files" "s \<in> set (Service f)"
    by (auto simp: package_services_def package_files_def)
  with assms(2) have "additive_service s s"
    by (auto simp: unique_members_def additive_service_def)
  with s show "\<exists>s' \<in> set (package_services files p). additive_service s s'" by blast
next
  fix p m assume "p \<in> set (map Package files)" and m: "m \<in> set (package_messages files p)"
  then obtain f where "f \<in> set files" "m \<in> set (MessageType f)"
    by (auto simp: package_messages_def package_files_def)
  with assms(2) have "additive_message m m"
    by (auto simp: unique_members_def additive_message_def)
  with m show "\<exists>m' \<in> set (package_messages files p). additive_message m m'" by blast
qed

subsection \<open>Permuted files\<close>

lemma mset_concat_map: "mset (concat (map f xs)) = (\<Sum>x \<in># mset xs. mset (f x))"
  by (induction xs) simp_all

lemma mset_concat_map_cong:
  "mset xs = mset ys \<Longrightarrow> mset (concat (map f xs)) = mset (concat (map f ys))"
  by (simp add: mset_concat_map)

lemma index_by_mset:
  assumes "distinct (map key xs)" "mset xs = mset ys"
  shows "index_by key xs = index_by key ys"
proof
  fix k
  from assms(2) have set: "set xs = set ys" by (rule mset_eq_setD)
  from assms have dys: "distinct (map key ys)"
    by (metis distinct_map mset_eq_imp_distinct_iff set)
  show "index_by key xs k = index_by key ys k"
  proof (cases "k \<in> key ` set xs")
    case False
    then have "index_by key xs k = None" by (simp add: index_by_None)
    moreover from False set have "index_by key ys k = None" by (simp add: index_by_None)
    ultimately show ?thesis by simp
  next
    case True
    then obtain x where x: "x \<in> set xs" "key x = k" by auto
    with set have "x \<in> set ys" by simp
    with x index_by_distinct [OF assms(1) x(1)] index_by_distinct [OF dys, of x]
    show ?thesis by simp
  qed
qed

lemma dom_groupByPackage: "dom (groupByPackage files) = Package ` set files"
  by (auto simp: groupByPackage_eq dom_def)

lemma mset_package_changes:
  assumes prev: "mset previous' = mset previous"
    and cur: "mset current' = mset current"
    and uniq: "unique_toplevel current"
  shows "mset (package_changes previous' current' k) = mset (package_changes previous current k)"
proof -
  from prev have sp: "set previous' = set previous" by (rule mset_eq_setD)
  from cur have sc: "set current' = set current" by (rule mset_eq_setD)
  have pf: "mset (package_files previous' k) = mset (package_files previous k)"
    using prev by (simp add: package_files_def)
  have cf: "mset (package_files current' k) = mset (package_files current k)"
    using cur by (simp add: package_files_def)
  show ?thesis
  proof (cases "k \<in> Package ` set previous \<and> k \<in> Package ` set current")
    case False
    with sp sc show ?thesis
      by (auto simp: package_changes_def groupByPackage_eq)
  next
    case True
    with uniq have d: "distinct (map enum_Name (package_enums current k))"
      "distinct (map service_Name (package_services current k))"
      "distinct (map msg_Name (package_messages current k))"
      by (auto simp: unique_toplevel_def)
    have ie: "index_by enum_Name (package_enums current' k) =
              index_by enum_Name (package_enums current k)"
      by (rule index_by_mset [symmetric, OF d(1)])
         (simp add: package_enums_def mset_concat_map_cong [OF cf])
    have isv: "index_by service_Name (package_services current' k) =
              index_by service_Name (package_services current k)"
      by (rule index_by_mset [symmetric, OF d(2)])
         (simp add: package_services_def mset_concat_map_cong [OF cf])
    have im: "index_by msg_Name (package_messages current' k) =
              index_by msg_Name (package_messages current k)"
      by (rule index_by_mset [symmetric, OF d(3)])
         (simp add: package_messages_def mset_concat_map_cong [OF cf])
    have pe: "mset (package_enums previous' k) = mset (package_enums previous k)"
      by (simp add: package_enums_def mset_concat_map_cong [OF pf])
    have ps: "mset (package_services previous' k) = mset (package_services previous k)"
      by (simp add: package_services_def mset_concat_map_cong [OF pf])
    have pm: "mset (package_messages previous' k) = mset (package_messages previous k)"
      by (simp add: package_messages_def mset_concat_map_cong [OF pf])
    from True sp sc show ?thesis
      by (simp add: package_changes_def groupByPackage_eq Changes_diffPackage
          package_enums_def [symmetric] package_services_def [symmetric]
          package_messages_def [symmetric] ie isv im
          mset_concat_map_cong [OF pe] mset_concat_map_cong [OF ps] mset_concat_map_cong [OF pm])
  qed
qed

subsection \<open>Unfolding the differ on a concrete input\<close>

lemmas eval_defs =
  diffFiles_def groupByPackage_def diffPackage_def diffPackage_enums_def
  diffPackage_services_def diffPackage_messages_def diffMsg_def diffFields_def
  diffFields_field_def hasReserved_def diffReservedNames_def diffReservedNumbers_def
  diffEnum_def diffEnum_value_def diffEnum_name_def diffService_def diffService_method_def
  index_by_def index_into_def Add_def Let_def

section \<open>Removed fields and reservations\<close>

text \<open>
  C1. A previous field whose number is absent from the current message is passed over
  without a Change exactly when its name is a current reserved name and its number lies in
  a current reserved range, the ranges being half-open: \<open>Start \<le> number < End\<close>.
  \<open>hasReserved\<close> tests \<open>Start \<le> number \<le> End\<close> instead. With the current message reserving
  the name \<open>name\<close> and the single number 1 (the range from 1 to the exclusive end 2), the
  removal of the previous field \<open>name = 2\<close> is passed over, although 2 is not reserved.
\<close>

theorem diffFields_reserved_end_inclusive:
  "Changes (diffFields \<lparr>Changes = []\<rparr>
     \<lparr>msg_Name = ''HelloRequest'',
      msg_Field = [\<lparr>field_Name = ''name'', field_Number = 2, field_Label = Some 1,
                    field_Type = Some 9, field_TypeName = None\<rparr>],
      msg_ReservedRange = [], msg_ReservedName = []\<rparr>
     \<lparr>msg_Name = ''HelloRequest'', msg_Field = [],
      msg_ReservedRange = [\<lparr>Start = 1, End = 2\<rparr>], msg_ReservedName = [''name'']\<rparr>) = []
   \<and> \<not> ((1 :: int32) \<le>s 2 \<and> (2 :: int32) <s 2)"
  by (simp add: diffFields_def diffFields_field_def hasReserved_def index_by_def index_into_def
      word_sle_eq word_sless_alt)

section \<open>Reserved ranges\<close>

text \<open>
  C2. The Changes that \<open>diffReservedNumbers\<close> adds are, in order, one
  \<open>ProblemUnreservedFieldNumber\<close> for each previous reserved range that no single current
  reserved range contains (no current range \<open>c\<close> has \<open>Start c \<le> Start p\<close> and
  \<open>End p \<le> End c\<close>), and nothing for the others. In particular a previous range that the
  current message splits into two adjacent ranges is flagged.
\<close>

theorem diffReservedNumbers_flags_uncontained:
  "Changes (diffReservedNumbers report previous current) =
     Changes report @
     map (\<lambda>p. ProblemUnreservedFieldNumber (msg_Name current) (Start p) (End p))
       (filter (\<lambda>p. \<not> (\<exists>c \<in> set (msg_ReservedRange current).
                           Start c \<le>s Start p \<and> End p \<le>s End c))
          (msg_ReservedRange previous))
   \<and> (\<forall>p \<in> set (msg_ReservedRange previous). \<forall>m.
          Start p <s m \<and> m <s End p \<and>
          msg_ReservedRange current = [\<lparr>Start = Start p, End = m\<rparr>, \<lparr>Start = m, End = End p\<rparr>]
          \<longrightarrow> ProblemUnreservedFieldNumber (msg_Name current) (Start p) (End p)
                \<in> set (Changes (diffReservedNumbers report previous current)))"
proof (intro conjI ballI allI impI)
  show "Changes (diffReservedNumbers report previous current) =
     Changes report @
     map (\<lambda>p. ProblemUnreservedFieldNumber (msg_Name current) (Start p) (End p))
       (filter (\<lambda>p. \<not> (\<exists>c \<in> set (msg_ReservedRange current).
                           Start c \<le>s Start p \<and> End p \<le>s End c))
          (msg_ReservedRange previous))"
    by (rule Changes_diffReservedNumbers)
next
  fix p m
  assume p: "p \<in> set (msg_ReservedRange previous)"
    and h: "Start p <s m \<and> m <s End p \<and>
          msg_ReservedRange current = [\<lparr>Start = Start p, End = m\<rparr>, \<lparr>Start = m, End = End p\<rparr>]"
  from h have "\<not> (\<exists>c \<in> set (msg_ReservedRange current). Start c \<le>s Start p \<and> End p \<le>s End c)"
    by (auto simp: word_sle_eq word_sless_alt)
  with p show "ProblemUnreservedFieldNumber (msg_Name current) (Start p) (End p)
                \<in> set (Changes (diffReservedNumbers report previous current))"
    by (simp add: Changes_diffReservedNumbers image_iff) blast
qed

theorem diffReservedNumbers_flags_uncontained_witness:
  "(1 :: int32) <s 2 \<and> (2 :: int32) <s 4 \<and>
   Changes (diffReservedNumbers \<lparr>Changes = []\<rparr>
     \<lparr>msg_Name = ''HelloRequest'', msg_Field = [],
      msg_ReservedRange = [\<lparr>Start = 1, End = 4\<rparr>], msg_ReservedName = []\<rparr>
     \<lparr>msg_Name = ''HelloRequest'', msg_Field = [],
      msg_ReservedRange = [\<lparr>Start = 1, End = 2\<rparr>, \<lparr>Start = 2, End = 4\<rparr>],
      msg_ReservedName = []\<rparr>) =
   [ProblemUnreservedFieldNumber ''HelloRequest'' 1 4]"
  using diffReservedNumbers_flags_uncontained [of "\<lparr>Changes = []\<rparr>"
     "\<lparr>msg_Name = ''HelloRequest'', msg_Field = [],
      msg_ReservedRange = [\<lparr>Start = 1, End = 4\<rparr>], msg_ReservedName = []\<rparr>"
     "\<lparr>msg_Name = ''HelloRequest'', msg_Field = [],
      msg_ReservedRange = [\<lparr>Start = 1, End = 2\<rparr>, \<lparr>Start = 2, End = 4\<rparr>],
      msg_ReservedName = []\<rparr>"]
  by (simp add: word_sle_eq word_sless_alt)

section \<open>Enum values\<close>

text \<open>
  C3, as amended. \<open>diffEnum\<close> adds, for each previous value in turn, what its first loop
  adds (\<open>enum_value_changes\<close>) and then, for each previous value in turn, what its second
  loop adds (\<open>enum_name_changes\<close>). For a previous value \<open>v\<close>: if its name is the name of
  some current value and its number is the number of no current value, the two loops add
  exactly one \<open>ProblemChangeEnumValue\<close>, with the old number and the number of the last
  current value of that name; if its number is the number of some current value and its
  name is the name of no current value, exactly one \<open>ProblemChangeEnumName\<close>, with the old
  name and the name of the last current value of that number; if neither its name nor its
  number occurs in the current enum, exactly one \<open>ProblemRemovedEnumValue\<close>; if both occur
  in the current enum, on one value or on two, nothing.
\<close>

theorem diffEnum_value_cases:
  "Changes (diffEnum report previous current) =
     Changes report
     @ concat (map (enum_value_changes previous current) (enum_Value previous))
     @ concat (map (enum_name_changes previous current) (enum_Value previous))
   \<and> (\<forall>v.
        (value_Name v \<in> value_Name ` set (enum_Value current) \<and>
         value_Number v \<notin> value_Number ` set (enum_Value current) \<longrightarrow>
           enum_value_changes previous current v =
             [ProblemChangeEnumValue (enum_Name previous) (value_Name v) (value_Number v)
                (value_Number
                   (last (filter (\<lambda>n. value_Name n = value_Name v) (enum_Value current))))] \<and>
           enum_name_changes previous current v = []) \<and>
        (value_Number v \<in> value_Number ` set (enum_Value current) \<and>
         value_Name v \<notin> value_Name ` set (enum_Value current) \<longrightarrow>
           enum_value_changes previous current v = [] \<and>
           enum_name_changes previous current v =
             [ProblemChangeEnumName (enum_Name previous) (value_Number v) (value_Name v)
                (value_Name
                   (last (filter (\<lambda>n. value_Number n = value_Number v)
                            (enum_Value current))))]) \<and>
        (value_Name v \<notin> value_Name ` set (enum_Value current) \<and>
         value_Number v \<notin> value_Number ` set (enum_Value current) \<longrightarrow>
           enum_value_changes previous current v =
             [ProblemRemovedEnumValue (enum_Name previous) (value_Name v)] \<and>
           enum_name_changes previous current v = []) \<and>
        (value_Name v \<in> value_Name ` set (enum_Value current) \<and>
         value_Number v \<in> value_Number ` set (enum_Value current) \<longrightarrow>
           enum_value_changes previous current v = [] \<and>
           enum_name_changes previous current v = []))"
proof (intro conjI allI impI)
  show "Changes (diffEnum report previous current) =
     Changes report
     @ concat (map (enum_value_changes previous current) (enum_Value previous))
     @ concat (map (enum_name_changes previous current) (enum_Value previous))"
    by (rule Changes_diffEnum)
next
  fix v :: EnumValueDescriptorProto
  assume h: "value_Name v \<in> value_Name ` set (enum_Value current) \<and>
         value_Number v \<notin> value_Number ` set (enum_Value current)"
  then have bv: "index_by value_Number (enum_Value current) (value_Number v) = None"
    by (simp add: index_by_None)
  from h have nx: "index_by value_Name (enum_Value current) (value_Name v) =
      Some (last (filter (\<lambda>n. value_Name n = value_Name v) (enum_Value current)))"
    by (simp add: index_by_last)
  from bv nx show "enum_value_changes previous current v =
             [ProblemChangeEnumValue (enum_Name previous) (value_Name v) (value_Number v)
                (value_Number
                   (last (filter (\<lambda>n. value_Name n = value_Name v) (enum_Value current))))]"
    by (simp add: enum_value_changes_def diffEnum_value_def Changes_Add)
  from nx show "enum_name_changes previous current v = []"
    by (simp add: enum_name_changes_def diffEnum_name_def)
next
  fix v :: EnumValueDescriptorProto
  assume h: "value_Number v \<in> value_Number ` set (enum_Value current) \<and>
         value_Name v \<notin> value_Name ` set (enum_Value current)"
  then have bn: "index_by value_Name (enum_Value current) (value_Name v) = None"
    by (simp add: index_by_None)
  from h have nx: "index_by value_Number (enum_Value current) (value_Number v) =
      Some (last (filter (\<lambda>n. value_Number n = value_Number v) (enum_Value current)))"
    by (simp add: index_by_last)
  from bn nx show "enum_name_changes previous current v =
             [ProblemChangeEnumName (enum_Name previous) (value_Number v) (value_Name v)
                (value_Name
                   (last (filter (\<lambda>n. value_Number n = value_Number v)
                            (enum_Value current))))]"
    by (simp add: enum_name_changes_def diffEnum_name_def Changes_Add)
  from nx show "enum_value_changes previous current v = []"
    by (simp add: enum_value_changes_def diffEnum_value_def)
next
  fix v :: EnumValueDescriptorProto
  assume h: "value_Name v \<notin> value_Name ` set (enum_Value current) \<and>
         value_Number v \<notin> value_Number ` set (enum_Value current)"
  then have bn: "index_by value_Name (enum_Value current) (value_Name v) = None"
    and bv: "index_by value_Number (enum_Value current) (value_Number v) = None"
    by (simp_all add: index_by_None)
  then show "enum_value_changes previous current v =
             [ProblemRemovedEnumValue (enum_Name previous) (value_Name v)]"
    and "enum_name_changes previous current v = []"
    by (simp_all add: enum_value_changes_def diffEnum_value_def enum_name_changes_def
        diffEnum_name_def Changes_Add)
next
  fix v :: EnumValueDescriptorProto
  assume h: "value_Name v \<in> value_Name ` set (enum_Value current) \<and>
         value_Number v \<in> value_Number ` set (enum_Value current)"
  then have "index_by value_Name (enum_Value current) (value_Name v) =
      Some (last (filter (\<lambda>n. value_Name n = value_Name v) (enum_Value current)))"
    and "index_by value_Number (enum_Value current) (value_Number v) =
      Some (last (filter (\<lambda>n. value_Number n = value_Number v) (enum_Value current)))"
    by (simp_all add: index_by_last)
  then show "enum_value_changes previous current v = []"
    and "enum_name_changes previous current v = []"
    by (simp_all add: enum_value_changes_def diffEnum_value_def enum_name_changes_def
        diffEnum_name_def)
qed

theorem diffEnum_value_cases_witness:
  "''bat'' \<in> value_Name ` set (enum_Value ex_enum_current) \<and>
   1 \<notin> value_Number ` set (enum_Value ex_enum_current) \<and>
   enum_value_changes ex_enum_previous ex_enum_current \<lparr>value_Name = ''bat'', value_Number = 1\<rparr>
     = [ProblemChangeEnumValue ''FOO'' ''bat'' 1 5] \<and>
   2 \<in> value_Number ` set (enum_Value ex_enum_current) \<and>
   ''foo'' \<notin> value_Name ` set (enum_Value ex_enum_current) \<and>
   enum_name_changes ex_enum_previous ex_enum_current \<lparr>value_Name = ''foo'', value_Number = 2\<rparr>
     = [ProblemChangeEnumName ''FOO'' 2 ''foo'' ''bar''] \<and>
   enum_value_changes ex_enum_previous ex_enum_current \<lparr>value_Name = ''gone'', value_Number = 7\<rparr>
     = [ProblemRemovedEnumValue ''FOO'' ''gone''] \<and>
   Changes (diffEnum \<lparr>Changes = []\<rparr> ex_enum_previous ex_enum_current) =
     [ProblemChangeEnumValue ''FOO'' ''bat'' 1 5, ProblemRemovedEnumValue ''FOO'' ''gone'',
      ProblemChangeEnumName ''FOO'' 2 ''foo'' ''bar'']"
  using diffEnum_value_cases [of "\<lparr>Changes = []\<rparr>" ex_enum_previous ex_enum_current]
  by (simp add: enum_value_changes_def enum_name_changes_def diffEnum_value_def
      diffEnum_name_def index_by_def index_into_def Add_def)

text \<open>
  A change of number alone, or of name alone, is not always reported. When the old number
  of a renumbered value is the number of another current value (\<open>bat = 1\<close> becomes
  \<open>bat = 2\<close> next to \<open>other = 1\<close>), when two values swap their numbers, and when the old
  name of a renamed value is the name of another current value (\<open>foo = 1\<close> becomes
  \<open>bar = 1\<close> next to \<open>foo = 2\<close>), \<open>diffEnum\<close> adds no Change.
\<close>

theorem diffEnum_value_cases_counterexample:
  "Changes (diffEnum \<lparr>Changes = []\<rparr>
     (ex_enum ''FOO'' [ex_value ''bat'' 1])
     (ex_enum ''FOO'' [ex_value ''bat'' 2, ex_value ''other'' 1])) = []
   \<and> Changes (diffEnum \<lparr>Changes = []\<rparr>
     (ex_enum ''FOO'' [ex_value ''a'' 0, ex_value ''b'' 1])
     (ex_enum ''FOO'' [ex_value ''a'' 1, ex_value ''b'' 0])) = []
   \<and> Changes (diffEnum \<lparr>Changes = []\<rparr>
     (ex_enum ''FOO'' [ex_value ''foo'' 1])
     (ex_enum ''FOO'' [ex_value ''bar'' 1, ex_value ''foo'' 2])) = []"
  by (simp add: diffEnum_def diffEnum_value_def diffEnum_name_def index_by_def index_into_def)

section \<open>Streaming flags\<close>

text \<open>
  C4. For a previous method matched by name to a current method, the client-streaming and
  server-streaming flags are compared as present or absent: a streaming Change is added
  exactly when the flag is present on one side and absent on the other, and the Change
  renders the presence of the old and of the new flag. \<open>String()\<close> does render the
  presence, but \<open>diffService\<close> compares the two pointers with \<open>cmp.Equal\<close>, that is by
  the values they point to. With the client flag present on both sides, \<open>false\<close> before and
  \<open>true\<close> after, the presence is the same on both sides, and yet a Change is added; it
  renders as \<open>true -> true\<close>.
\<close>

theorem diffService_streaming_by_value:
  "Changes (diffService \<lparr>Changes = []\<rparr>
     \<lparr>service_Name = ''Foo'',
      service_Method = [\<lparr>method_Name = ''Invoke'', InputType = ''.helloworld.FooRequest'',
                         OutputType = ''.helloworld.FooResponse'',
                         ClientStreaming = Some False, ServerStreaming = None\<rparr>]\<rparr>
     \<lparr>service_Name = ''Foo'',
      service_Method = [\<lparr>method_Name = ''Invoke'', InputType = ''.helloworld.FooRequest'',
                         OutputType = ''.helloworld.FooResponse'',
                         ClientStreaming = Some True, ServerStreaming = None\<rparr>]\<rparr>) =
     [ProblemChangedServiceStreaming ''Foo'' ''Invoke'' ''client'' (Some False) (Some True)]
   \<and> ((Some False :: bool option) \<noteq> None) = ((Some True :: bool option) \<noteq> None)
   \<and> Change_String
        (ProblemChangedServiceStreaming ''Foo'' ''Invoke'' ''client'' (Some False) (Some True)) =
      ''changed client streaming for method '' @ [CHR 0x27] @ ''Invoke'' @ [CHR 0x27]
        @ '' on service '' @ [CHR 0x27] @ ''Foo'' @ [CHR 0x27] @ '': true -> true''"
  by (simp add: diffService_def diffService_method_def index_by_def index_into_def Add_def
      sprint_t_def quoted_def Let_def)

section \<open>Matched fields\<close>

text \<open>
  C5, as amended. \<open>diffFields\<close> adds, for each previous field in turn, the Changes of
  \<open>field_changes\<close>. For a previous field matched by number to the current field \<open>next\<close>
  these are: a name Change when the names differ; then a type Change when the type kinds
  differ, or else, when both fields carry a type name and the two type names differ, a
  type-name Change; then a label Change when the labels differ. The name, type-kind and
  label comparisons are independent of each other; the type names are compared only when
  the type kinds are equal, so one field yields at most three Changes.
\<close>

theorem diffFields_matched_field:
  "Changes (diffFields report previous current) =
     Changes report @ concat (map (field_changes current) (msg_Field previous))
   \<and> (\<forall>field next.
        index_by field_Number (msg_Field current) (field_Number field) = Some next \<longrightarrow>
        field_changes current field =
          (if field_Name field \<noteq> field_Name next
           then [ProblemChangedFieldName (msg_Name current) (field_Number field)
                   (field_Name field) (field_Name next)]
           else [])
          @ (if field_Type field \<noteq> field_Type next
             then [ProblemChangedFieldType (msg_Name current) 0 (field_Name field)
                     (field_Type field) (field_Type next)]
             else if field_TypeName field \<noteq> None \<and> field_TypeName next \<noteq> None
                     \<and> field_TypeName field \<noteq> field_TypeName next
             then [ProblemChangedFieldComplexType (msg_Name current) (field_Name field)
                     (the (field_TypeName field)) (the (field_TypeName next))]
             else [])
          @ (if field_Label field \<noteq> field_Label next
             then [ProblemChangedFieldLabel (msg_Name current) (field_Name field)
                     (field_Label field) (field_Label next)]
             else [])
        \<and> length (field_changes current field) \<le> 3)"
  by (simp add: Changes_diffFields field_changes_def diffFields_field_def Changes_Add Let_def)

theorem diffFields_matched_field_witness:
  "index_by field_Number
     [\<lparr>field_Name = ''name'', field_Number = 1, field_Label = Some 1,
       field_Type = Some 11, field_TypeName = Some ''.google.protobuf.Int64Value''\<rparr>] 1 =
   Some \<lparr>field_Name = ''name'', field_Number = 1, field_Label = Some 1,
       field_Type = Some 11, field_TypeName = Some ''.google.protobuf.Int64Value''\<rparr>
   \<and> Changes (diffFields \<lparr>Changes = []\<rparr>
     \<lparr>msg_Name = ''HelloRequest'',
      msg_Field = [\<lparr>field_Name = ''name'', field_Number = 1, field_Label = Some 1,
                    field_Type = Some 11,
                    field_TypeName = Some ''.google.protobuf.StringValue''\<rparr>],
      msg_ReservedRange = [], msg_ReservedName = []\<rparr>
     \<lparr>msg_Name = ''HelloRequest'',
      msg_Field = [\<lparr>field_Name = ''name'', field_Number = 1, field_Label = Some 1,
                    field_Type = Some 11,
                    field_TypeName = Some ''.google.protobuf.Int64Value''\<rparr>],
      msg_ReservedRange = [], msg_ReservedName = []\<rparr>) =
   [ProblemChangedFieldComplexType ''HelloRequest'' ''name'' ''.google.protobuf.StringValue''
      ''.google.protobuf.Int64Value'']"
  using diffFields_matched_field [of "\<lparr>Changes = []\<rparr>"
     "\<lparr>msg_Name = ''HelloRequest'',
      msg_Field = [\<lparr>field_Name = ''name'', field_Number = 1, field_Label = Some 1,
                    field_Type = Some 11,
                    field_TypeName = Some ''.google.protobuf.StringValue''\<rparr>],
      msg_ReservedRange = [], msg_ReservedName = []\<rparr>"
     "\<lparr>msg_Name = ''HelloRequest'',
      msg_Field = [\<lparr>field_Name = ''name'', field_Number = 1, field_Label = Some 1,
                    field_Type = Some 11,
                    field_TypeName = Some ''.google.protobuf.Int64Value''\<rparr>],
      msg_ReservedRange = [], msg_ReservedName = []\<rparr>"]
  by (simp add: field_changes_def diffFields_field_def index_by_def index_into_def Add_def Let_def)

text \<open>
  A field whose name, type kind, type name and label all differ yields three Changes, and
  none for the type name.
\<close>

theorem diffFields_four_changes_counterexample:
  "Changes (diffFields \<lparr>Changes = []\<rparr>
     \<lparr>msg_Name = ''HelloRequest'',
      msg_Field = [\<lparr>field_Name = ''foo'', field_Number = 1, field_Label = Some 1,
                    field_Type = Some 11, field_TypeName = Some ''.helloworld.A''\<rparr>],
      msg_ReservedRange = [], msg_ReservedName = []\<rparr>
     \<lparr>msg_Name = ''HelloRequest'',
      msg_Field = [\<lparr>field_Name = ''bar'', field_Number = 1, field_Label = Some 3,
                    field_Type = Some 14, field_TypeName = Some ''.helloworld.B''\<rparr>],
      msg_ReservedRange = [], msg_ReservedName = []\<rparr>) =
   [ProblemChangedFieldName ''HelloRequest'' 1 ''foo'' ''bar'',
    ProblemChangedFieldType ''HelloRequest'' 0 ''foo'' (Some 11) (Some 14),
    ProblemChangedFieldLabel ''HelloRequest'' ''foo'' (Some 1) (Some 3)]"
  by (simp add: diffFields_def diffFields_field_def index_by_def index_into_def Add_def Let_def)

section \<open>The error of the top-level diff\<close>



section \<open>A snapshot against itself\<close>

text \<open>
  C7, as amended. Take a snapshot in which, within each package, every enum name, every
  service name and every message name is declared once, every message numbers its fields
  without repetition and every service names its methods without repetition. Diffing it
  against itself yields the empty report and no error, in whatever order the packages are
  visited.
\<close>

theorem diffFiles_self:
  assumes "unique_toplevel files" and "unique_members files"
  shows "diffFiles ks files files = (\<lparr>Changes = []\<rparr>, None)"
  using assms by (intro additive_diffFiles unique_additive)

theorem diffFiles_self_witness:
  "unique_toplevel [ex_file_current, ex_file_new] \<and>
   unique_members [ex_file_current, ex_file_new] \<and>
   range_order [''other'', ''helloworld''] (groupByPackage [ex_file_current, ex_file_new]) \<and>
   diffFiles [''other'', ''helloworld''] [ex_file_current, ex_file_new]
     [ex_file_current, ex_file_new] = (\<lparr>Changes = []\<rparr>, None)"
  using diffFiles_self [of "[ex_file_current, ex_file_new]" "[''other'', ''helloworld'']"]
  by (simp add: unique_toplevel_def unique_members_def package_enums_def package_services_def
      package_messages_def package_files_def range_order_def groupByPackage_def insert_commute)

text \<open>
  Without these conditions the diff of a snapshot against itself reports Changes: a
  service that names two methods alike, a message that numbers two fields alike, and a
  package that declares an enum name in two files.
\<close>

theorem diffFiles_self_counterexample:
  "Changes (fst (diffFiles [''helloworld'']
     [ex_file ''helloworld'' [] []
        [ex_service ''Foo'' [ex_method ''Invoke'' ''.helloworld.FooRequest'',
                             ex_method ''Invoke'' ''.helloworld.BarRequest'']]]
     [ex_file ''helloworld'' [] []
        [ex_service ''Foo'' [ex_method ''Invoke'' ''.helloworld.FooRequest'',
                             ex_method ''Invoke'' ''.helloworld.BarRequest'']]])) =
     [ProblemChangedService ''Foo'' ''Invoke'' ''input'' ''.helloworld.FooRequest''
        ''.helloworld.BarRequest'']
   \<and> Changes (fst (diffFiles [''helloworld'']
     [ex_file ''helloworld'' [ex_message ''HelloRequest'' [ex_field ''foo'' 1, ex_field ''bar'' 1]]
        [] []]
     [ex_file ''helloworld'' [ex_message ''HelloRequest'' [ex_field ''foo'' 1, ex_field ''bar'' 1]]
        [] []])) =
     [ProblemChangedFieldName ''HelloRequest'' 1 ''foo'' ''bar'']
   \<and> Changes (fst (diffFiles [''helloworld'']
     [ex_file ''helloworld'' [] [ex_enum ''FOO'' [ex_value ''bat'' 1]] [],
      ex_file ''helloworld'' [] [ex_enum ''FOO'' [ex_value ''baz'' 2]] []]
     [ex_file ''helloworld'' [] [ex_enum ''FOO'' [ex_value ''bat'' 1]] [],
      ex_file ''helloworld'' [] [ex_enum ''FOO'' [ex_value ''baz'' 2]] []])) =
     [ProblemRemovedEnumValue ''FOO'' ''bat'']"
  by (simp add: eval_defs)

section \<open>Additive edits\<close>

text \<open>
  C8, as amended. Let the current snapshot extend the previous one (\<open>additive\<close>): every
  previous package is still there and, in it, every previous enum, service and message has
  a current declaration of the same name that keeps all its values, methods or fields as
  they were (with the reserved names and ranges unchanged) and may add new ones; and let the
  current snapshot declare each top-level name of such a package once for each kind, number
  the fields of such a message without repetition and name the methods of such a service
  without repetition. Then the diff yields the empty report and no error, in whatever order
  the packages are visited.
\<close>

theorem diffFiles_additive:
  assumes "additive previous current"
  shows "diffFiles ks previous current = (\<lparr>Changes = []\<rparr>, None)"
  using assms by (rule additive_diffFiles)

theorem diffFiles_additive_witness:
  "additive [ex_file_previous] [ex_file_current, ex_file_new] \<and>
   range_order [''helloworld''] (groupByPackage [ex_file_previous]) \<and>
   diffFiles [''helloworld''] [ex_file_previous] [ex_file_current, ex_file_new] =
     (\<lparr>Changes = []\<rparr>, None)"
  using diffFiles_additive [of "[ex_file_previous]" "[ex_file_current, ex_file_new]"
      "[''helloworld'']"]
  by (simp add: additive_def additive_enum_def additive_service_def additive_message_def
      package_enums_def package_services_def package_messages_def package_files_def
      range_order_def groupByPackage_def)

text \<open>
  An edit that only adds can still be reported when the addition repeats a key: a new
  method with the name of an old one, a new field with the number of an old one, a new file
  of the package that declares an old enum name again.
\<close>

theorem diffFiles_additive_counterexample:
  "Changes (fst (diffFiles [''helloworld'']
     [ex_file ''helloworld'' [] []
        [ex_service ''Foo'' [ex_method ''Invoke'' ''.helloworld.FooRequest'']]]
     [ex_file ''helloworld'' [] []
        [ex_service ''Foo'' [ex_method ''Invoke'' ''.helloworld.FooRequest'',
                             ex_method ''Invoke'' ''.helloworld.BarRequest'']]])) =
     [ProblemChangedService ''Foo'' ''Invoke'' ''input'' ''.helloworld.FooRequest''
        ''.helloworld.BarRequest'']
   \<and> Changes (fst (diffFiles [''helloworld'']
     [ex_file ''helloworld'' [ex_message ''HelloRequest'' [ex_field ''foo'' 1]] [] []]
     [ex_file ''helloworld'' [ex_message ''HelloRequest'' [ex_field ''foo'' 1, ex_field ''bar'' 1]]
        [] []])) =
     [ProblemChangedFieldName ''HelloRequest'' 1 ''foo'' ''bar'']
   \<and> Changes (fst (diffFiles [''helloworld'']
     [ex_file ''helloworld'' [] [ex_enum ''FOO'' [ex_value ''bat'' 1]] []]
     [ex_file ''helloworld'' [] [ex_enum ''FOO'' [ex_value ''bat'' 1]] [],
      ex_file ''helloworld'' [] [ex_enum ''FOO'' [ex_value ''baz'' 2]] []])) =
     [ProblemRemovedEnumValue ''FOO'' ''bat'']"
  by (simp add: eval_defs)

section \<open>Permuting the files\<close>

text \<open>
  C9, as amended. Permute the files of the previous snapshot and those of the current
  snapshot in any way, within and across packages, and let the packages be visited in any
  order. If the current snapshot declares each top-level name once for each kind within
  each package, the two reports hold the same Changes the same number of times; their order
  may differ.
\<close>

theorem diffFiles_permutation:
  assumes "mset previous' = mset previous"
    and "mset current' = mset current"
    and "unique_toplevel current"
    and "range_order ks (groupByPackage previous)"
    and "range_order ks' (groupByPackage previous')"
  shows "mset (Changes (fst (diffFiles ks' previous' current'))) =
         mset (Changes (fst (diffFiles ks previous current)))"
proof -
  from assms(1) have "set previous' = set previous" by (rule mset_eq_setD)
  with assms(4,5) have "mset ks' = mset ks"
    by (simp add: range_order_def dom_groupByPackage set_eq_iff_mset_eq_distinct [symmetric])
  then have "mset (concat (map (package_changes previous' current') ks')) =
             mset (concat (map (package_changes previous' current') ks))"
    by (rule mset_concat_map_cong)
  also have "\<dots> = mset (concat (map (package_changes previous current) ks))"
    by (simp add: mset_concat_map mset_package_changes [OF assms(1,2,3)])
  finally show ?thesis by (simp add: Changes_diffFiles)
qed

theorem diffFiles_permutation_witness:
  "mset [ex_file ''helloworld'' [] [ex_enum ''BAR'' []] [],
         ex_file ''helloworld'' [] [ex_enum ''FOO'' []] []] =
   mset [ex_file ''helloworld'' [] [ex_enum ''FOO'' []] [],
         ex_file ''helloworld'' [] [ex_enum ''BAR'' []] []] \<and>
   unique_toplevel [ex_file_new, ex_file_current] \<and>
   range_order [''helloworld'']
     (groupByPackage [ex_file ''helloworld'' [] [ex_enum ''FOO'' []] [],
                      ex_file ''helloworld'' [] [ex_enum ''BAR'' []] []]) \<and>
   mset (Changes (fst (diffFiles [''helloworld'']
           [ex_file ''helloworld'' [] [ex_enum ''BAR'' []] [],
            ex_file ''helloworld'' [] [ex_enum ''FOO'' []] []]
           [ex_file_current, ex_file_new]))) =
   mset (Changes (fst (diffFiles [''helloworld'']
           [ex_file ''helloworld'' [] [ex_enum ''FOO'' []] [],
            ex_file ''helloworld'' [] [ex_enum ''BAR'' []] []]
           [ex_file_new, ex_file_current])))"
  using diffFiles_permutation [of
      "[ex_file ''helloworld'' [] [ex_enum ''BAR'' []] [],
        ex_file ''helloworld'' [] [ex_enum ''FOO'' []] []]"
      "[ex_file ''helloworld'' [] [ex_enum ''FOO'' []] [],
        ex_file ''helloworld'' [] [ex_enum ''BAR'' []] []]"
      "[ex_file_current, ex_file_new]" "[ex_file_new, ex_file_current]"
      "[''helloworld'']" "[''helloworld'']"]
  by (simp add: unique_toplevel_def package_enums_def package_services_def
      package_messages_def package_files_def range_order_def groupByPackage_def)

text \<open>
  The order of the Changes follows the order of the previous files; and when two current
  files of a package declare the same enum name, their order decides which Changes appear.
\<close>

theorem diffFiles_permutation_counterexample:
  "Changes (fst (diffFiles [''helloworld'']
     [ex_file ''helloworld'' [] [ex_enum ''FOO'' []] [],
      ex_file ''helloworld'' [] [ex_enum ''BAR'' []] []]
     [ex_file ''helloworld'' [] [] []])) =
     [ProblemRemovedEnum ''FOO'', ProblemRemovedEnum ''BAR'']
   \<and> Changes (fst (diffFiles [''helloworld'']
     [ex_file ''helloworld'' [] [ex_enum ''BAR'' []] [],
      ex_file ''helloworld'' [] [ex_enum ''FOO'' []] []]
     [ex_file ''helloworld'' [] [] []])) =
     [ProblemRemovedEnum ''BAR'', ProblemRemovedEnum ''FOO'']
   \<and> fst (diffFiles [''helloworld'']
     [ex_file ''helloworld'' [] [ex_enum ''FOO'' []] [],
      ex_file ''helloworld'' [] [ex_enum ''BAR'' []] []]
     [ex_file ''helloworld'' [] [] []]) \<noteq>
     fst (diffFiles [''helloworld'']
     [ex_file ''helloworld'' [] [ex_enum ''BAR'' []] [],
      ex_file ''helloworld'' [] [ex_enum ''FOO'' []] []]
     [ex_file ''helloworld'' [] [] []])
   \<and> Changes (fst (diffFiles [''helloworld'']
     [ex_file ''helloworld'' [] [ex_enum ''FOO'' [ex_value ''bat'' 1]] []]
     [ex_file ''helloworld'' [] [ex_enum ''FOO'' [ex_value ''bat'' 1]] [],
      ex_file ''helloworld'' [] [ex_enum ''FOO'' [ex_value ''baz'' 2]] []])) =
     [ProblemRemovedEnumValue ''FOO'' ''bat'']
   \<and> Changes (fst (diffFiles [''helloworld'']
     [ex_file ''helloworld'' [] [ex_enum ''FOO'' [ex_value ''bat'' 1]] []]
     [ex_file ''helloworld'' [] [ex_enum ''FOO'' [ex_value ''baz'' 2]] [],
      ex_file ''helloworld'' [] [ex_enum ''FOO'' [ex_value ''bat'' 1]] []])) = []"
  by (simp add: eval_defs)

section \<open>Rendering an un-reserved range\<close>



end
